theory Spec2Isabelle
  imports Main
begin

section \<open>Characters and strings\<close>

text \<open>
  Column names are modelled as \<open>string\<close>; a \<open>char\<close> holds a code point below 256. The
  five functions below are Python's \<^verbatim>\<open>str.isupper\<close>, \<^verbatim>\<open>str.islower\<close>, \<^verbatim>\<open>str.isalpha\<close>,
  \<^verbatim>\<open>str.lower\<close>, \<^verbatim>\<open>str.upper\<close> and \<^verbatim>\<open>str.capitalize\<close> on ASCII characters only: the
  letters \<open>A\<close> to \<open>Z\<close> are upper case, \<open>a\<close> to \<open>z\<close> are lower case, and every other
  character is taken to have no case. They are what the naming transform does to the ASCII
  identifiers that name the fields of a resource model, and they are used for those. What
  Python does to other characters is a parameter of the transform in section
  \<open>Naming transform over Python's string methods\<close>; every statement about all strings is
  made there, and lemmas \<open>to_snake_case_with_ascii\<close>, \<open>to_camel_case_with_ascii\<close> and
  \<open>to_pascal_case_with_ascii\<close> prove that on strings of ASCII characters the functions
  below are the transform for every choice of the methods that follows the ASCII rule on
  ASCII characters.
\<close>


definition isupper :: "char \<Rightarrow> bool" where
  "isupper c = (65 \<le> (of_char c :: nat) \<and> (of_char c :: nat) \<le> 90)"

definition islower :: "char \<Rightarrow> bool" where
  "islower c = (97 \<le> (of_char c :: nat) \<and> (of_char c :: nat) \<le> 122)"

definition isalpha :: "char \<Rightarrow> bool" where
  "isalpha c = (isupper c \<or> islower c)"

definition lower :: "char \<Rightarrow> char" where
  "lower c = (if isupper c then char_of ((of_char c :: nat) + 32) else c)"

definition upper :: "char \<Rightarrow> char" where
  "upper c = (if islower c then char_of ((of_char c :: nat) - 32) else c)"

text \<open>\<^verbatim>\<open>word.capitalize()\<close>: the first character in upper case, the rest in lower case.\<close>

fun capitalize :: "string \<Rightarrow> string" where
  "capitalize [] = []"
| "capitalize (c # cs) = upper c # map lower cs"

text \<open>
  \<^verbatim>\<open>name.split(sep)\<close> for a one-character separator: the pieces between the
  occurrences of the separator, empty pieces included; the result is never empty.
\<close>

fun str_split :: "'a \<Rightarrow> 'a list \<Rightarrow> 'a list list" where
  "str_split sep [] = [[]]"
| "str_split sep (c # cs) =
     (if c = sep then [] # str_split sep cs
      else (case str_split sep cs of
              [] \<Rightarrow> [[c]]
            | p # ps \<Rightarrow> (c # p) # ps))"

text \<open>\<^verbatim>\<open>str(i)\<close> for an integer, as the f-string \<^verbatim>\<open>f"{i}"\<close> renders it.\<close>

fun str_nat :: "nat \<Rightarrow> string" where
  "str_nat n =
     (if n < 10 then [char_of (48 + n)]
      else str_nat (n div 10) @ [char_of (48 + n mod 10)])"

declare str_nat.simps [simp del]

definition str_int :: "int \<Rightarrow> string" where
  "str_int i = (if i < 0 then CHR ''-'' # str_nat (nat (- i)) else str_nat (nat i))"

section \<open>Naming transform\<close>

text \<open>
  \<^verbatim>\<open>
  def to_snake_case(name):
      result = []
      for i, char in enumerate(name):
          if char.isupper() and i > 0 and (name[i-1].islower()
                  or (i+1 < len(name) and name[i+1].islower())):
              result.append('_')
          result.append(char.lower())
      return ''.join(result)
  \<close>
  Each index contributes an optional underscore and the lowered character. The reads
  \<open>name[i-1]\<close> and \<open>name[i+1]\<close> are guarded by \<open>i > 0\<close> and \<open>i+1 < len(name)\<close>.
\<close>

definition to_snake_case :: "string \<Rightarrow> string" where
  "to_snake_case name =
     concat (map (\<lambda>i.
        (if isupper (name ! i) \<and> 0 < i \<and>
            (islower (name ! (i - 1)) \<or> (i + 1 < length name \<and> islower (name ! (i + 1))))
         then ''_'' else []) @ [lower (name ! i)])
        [0..<length name])"

text \<open>
  \<^verbatim>\<open>
  def to_camel_case(name):
      name = to_snake_case(name)
      parts = name.split('_')
      return parts[0] + ''.join(word.capitalize() for word in parts[1:])
  \<close>
  \<open>parts[0]\<close> exists because \<open>split\<close> never returns an empty list
  (lemma \<open>str_split_not_Nil\<close> below), so the first branch of the case is dead.
\<close>

definition to_camel_case :: "string \<Rightarrow> string" where
  "to_camel_case name =
     (case str_split (CHR ''_'') (to_snake_case name) of
        [] \<Rightarrow> []
      | p # ps \<Rightarrow> p @ concat (map capitalize ps))"

definition to_pascal_case :: "string \<Rightarrow> string" where
  "to_pascal_case name =
     concat (map capitalize (str_split (CHR ''_'') (to_snake_case name)))"

definition apply_case_style :: "string \<Rightarrow> string \<Rightarrow> string" where
  "apply_case_style name style =
     (if style = ''snake'' then to_snake_case name
      else if style = ''camel'' then to_camel_case name
      else if style = ''pascal'' then to_pascal_case name
      else name)"

section \<open>Naming transform: the rule in words\<close>

text \<open>
  The snake rule as the design states it, in two passes: put an underscore before each
  upper-case letter that is not the first character and that is preceded by a lower-case
  letter or followed by a lower-case letter; then lower the whole result. The first
  argument of \<open>insert_underscores\<close> is the character before the current one, if any.
\<close>

fun insert_underscores :: "char option \<Rightarrow> string \<Rightarrow> string" where
  "insert_underscores prev [] = []"
| "insert_underscores prev (c # cs) =
     (if isupper c \<and> prev \<noteq> None \<and>
         ((case prev of None \<Rightarrow> False | Some p \<Rightarrow> islower p) \<or>
          (case cs of [] \<Rightarrow> False | n # _ \<Rightarrow> islower n))
      then ''_'' else []) @ c # insert_underscores (Some c) cs"

definition snake_spec :: "string \<Rightarrow> string" where
  "snake_spec name = map lower (insert_underscores None name)"

text \<open>The contribution of index \<open>i\<close> to the loop of \<open>to_snake_case\<close>.\<close>

definition snake_piece :: "string \<Rightarrow> nat \<Rightarrow> string" where
  "snake_piece name i =
     (if isupper (name ! i) \<and> 0 < i \<and>
         (islower (name ! (i - 1)) \<or> (i + 1 < length name \<and> islower (name ! (i + 1))))
      then ''_'' else []) @ [lower (name ! i)]"

text \<open>A string with its first character in upper case, and whether it starts with a letter.\<close>

fun upper_first :: "string \<Rightarrow> string" where
  "upper_first [] = []"
| "upper_first (c # cs) = upper c # cs"

definition starts_with_letter :: "string \<Rightarrow> bool" where
  "starts_with_letter x = (case x of [] \<Rightarrow> False | c # _ \<Rightarrow> isalpha c)"

section \<open>Naming transform over Python's string methods\<close>

text \<open>
  The three conversions call \<^verbatim>\<open>str.isupper\<close>, \<^verbatim>\<open>str.islower\<close>, \<^verbatim>\<open>str.lower\<close> and
  \<^verbatim>\<open>str.capitalize\<close>. These are built-ins over all of Unicode, and their tables are not
  part of the program: here they are parameters, over any type of characters. A character's
  lower and upper case are strings, since Python may give more than one character
  (the upper case of the sharp s, U+00DF, is \<open>SS\<close>); \<^verbatim>\<open>str.capitalize\<close> is taken
  whole, as it title-cases the first character and lowers the rest in its context. \<open>char_upper\<close> is not called by the
  program; it states what "the first character in upper case" means.
\<close>

record 'c str_methods =
  underscore :: 'c
  char_isupper :: "'c \<Rightarrow> bool"
  char_islower :: "'c \<Rightarrow> bool"
  char_lower :: "'c \<Rightarrow> 'c list"
  char_upper :: "'c \<Rightarrow> 'c list"
  str_capitalize :: "'c list \<Rightarrow> 'c list"

text \<open>
  \<open>to_snake_case\<close>, \<open>to_camel_case\<close> and \<open>to_pascal_case\<close> of the source, line by line as
  above, with the methods as parameters.
\<close>

definition to_snake_case_with :: "'c str_methods \<Rightarrow> 'c list \<Rightarrow> 'c list" where
  "to_snake_case_with M name =
     concat (map (\<lambda>i.
        (if char_isupper M (name ! i) \<and> 0 < i \<and>
            (char_islower M (name ! (i - 1)) \<or>
             (i + 1 < length name \<and> char_islower M (name ! (i + 1))))
         then [underscore M] else []) @ char_lower M (name ! i))
        [0..<length name])"

definition to_camel_case_with :: "'c str_methods \<Rightarrow> 'c list \<Rightarrow> 'c list" where
  "to_camel_case_with M name =
     (case str_split (underscore M) (to_snake_case_with M name) of
        [] \<Rightarrow> []
      | p # ps \<Rightarrow> p @ concat (map (str_capitalize M) ps))"

definition to_pascal_case_with :: "'c str_methods \<Rightarrow> 'c list \<Rightarrow> 'c list" where
  "to_pascal_case_with M name =
     concat (map (str_capitalize M) (str_split (underscore M) (to_snake_case_with M name)))"

text \<open>
  The snake rule in words, over any string methods: underscores first, then every
  character of the result in lower case.
\<close>

fun insert_underscores_with :: "'c str_methods \<Rightarrow> 'c option \<Rightarrow> 'c list \<Rightarrow> 'c list" where
  "insert_underscores_with M prev [] = []"
| "insert_underscores_with M prev (c # cs) =
     (if char_isupper M c \<and> prev \<noteq> None \<and>
         ((case prev of None \<Rightarrow> False | Some p \<Rightarrow> char_islower M p) \<or>
          (case cs of [] \<Rightarrow> False | n # _ \<Rightarrow> char_islower M n))
      then [underscore M] else []) @ c # insert_underscores_with M (Some c) cs"

definition snake_spec_with :: "'c str_methods \<Rightarrow> 'c list \<Rightarrow> 'c list" where
  "snake_spec_with M name = concat (map (char_lower M) (insert_underscores_with M None name))"

definition snake_piece_with :: "'c str_methods \<Rightarrow> 'c list \<Rightarrow> nat \<Rightarrow> 'c list" where
  "snake_piece_with M name i =
     (if char_isupper M (name ! i) \<and> 0 < i \<and>
         (char_islower M (name ! (i - 1)) \<or>
          (i + 1 < length name \<and> char_islower M (name ! (i + 1))))
      then [underscore M] else []) @ char_lower M (name ! i)"

fun upper_first_with :: "'c str_methods \<Rightarrow> 'c list \<Rightarrow> 'c list" where
  "upper_first_with M [] = []"
| "upper_first_with M (c # cs) = char_upper M c @ cs"

text \<open>
  The ASCII rule of the first section is one choice of the methods; lemma \<open>ascii_instance\<close>
  proves that the functions of section \<open>Naming transform\<close> are this instance.
\<close>

definition ascii_methods :: "char str_methods" where
  "ascii_methods =
     \<lparr>underscore = CHR ''_'', char_isupper = isupper, char_islower = islower,
      char_lower = (\<lambda>c. [lower c]), char_upper = (\<lambda>c. [upper c]),
      str_capitalize = capitalize\<rparr>"

text \<open>
  Python's methods on the ASCII characters and on three characters beyond them, for the
  examples: E with acute accent (U+00C9, upper case, lowered to U+00E9), e with acute
  accent (U+00E9, lower case, upper and title case U+00C9) and the sharp s (U+00DF, lower
  case, upper case \<open>SS\<close>, title case \<open>Ss\<close>). \<^verbatim>\<open>w.capitalize()\<close> is the title case of
  the first character followed by the rest in lower case.
\<close>

definition sample_title :: "char \<Rightarrow> string" where
  "sample_title c =
     (if c = CHR 0xE9 then [CHR 0xC9] else if c = CHR 0xDF then ''Ss'' else [upper c])"

definition sample_lower :: "char \<Rightarrow> string" where
  "sample_lower c = (if c = CHR 0xC9 then [CHR 0xE9] else [lower c])"

definition sample_methods :: "char str_methods" where
  "sample_methods =
     \<lparr>underscore = CHR ''_'',
      char_isupper = (\<lambda>c. isupper c \<or> c = CHR 0xC9),
      char_islower = (\<lambda>c. islower c \<or> c = CHR 0xE9 \<or> c = CHR 0xDF),
      char_lower = sample_lower,
      char_upper = (\<lambda>c. if c = CHR 0xE9 then [CHR 0xC9]
                          else if c = CHR 0xDF then ''SS'' else [upper c]),
      str_capitalize = (\<lambda>w. case w of [] \<Rightarrow> []
                               | c # cs \<Rightarrow> sample_title c @ concat (map sample_lower cs))\<rparr>"

text \<open>
  Strings of ASCII characters, and string methods that do on ASCII characters and strings
  what Python's do: the ASCII rule.
\<close>

definition is_ascii :: "char \<Rightarrow> bool" where
  "is_ascii c = ((of_char c :: nat) < 128)"

definition ascii_string :: "string \<Rightarrow> bool" where
  "ascii_string x = list_all is_ascii x"

definition ascii_agrees :: "char str_methods \<Rightarrow> bool" where
  "ascii_agrees M =
     (underscore M = CHR ''_'' \<and>
      (\<forall>c. is_ascii c \<longrightarrow>
         char_isupper M c = isupper c \<and> char_islower M c = islower c \<and>
         char_lower M c = [lower c] \<and> char_upper M c = [upper c]) \<and>
      (\<forall>w. ascii_string w \<longrightarrow> str_capitalize M w = capitalize w))"

section \<open>Field types\<close>

text \<open>
  A field's type annotation, as \<^verbatim>\<open>typing.get_origin\<close> and \<^verbatim>\<open>typing.get_args\<close> see it:
  the primitives \<^verbatim>\<open>str\<close>, \<^verbatim>\<open>int\<close>, \<^verbatim>\<open>float\<close>, \<^verbatim>\<open>bool\<close>; \<^verbatim>\<open>NoneType\<close>; \<^verbatim>\<open>Any\<close>;
  a Pydantic model class, referred to by its name; any other class; a \<^verbatim>\<open>Union\<close> with
  its arguments (\<^verbatim>\<open>Optional[X]\<close> is \<^verbatim>\<open>Union[X, None]\<close>); and a \<^verbatim>\<open>List\<close> with its
  arguments (none for the bare \<^verbatim>\<open>typing.List\<close>).
\<close>

datatype prim = PStr | PInt | PFloat | PBool

datatype ftype =
    TPrim prim
  | TNone
  | TAny
  | TModel string
  | TOther string
  | TUnion "ftype list"
  | TList "ftype list"

text \<open>The two origins the code tests for; every other type has origin \<^verbatim>\<open>None\<close>.\<close>

datatype origin = Union | List

fun get_origin :: "ftype \<Rightarrow> origin option" where
  "get_origin (TUnion args) = Some Union"
| "get_origin (TList args) = Some List"
| "get_origin _ = None"

fun get_args :: "ftype \<Rightarrow> ftype list" where
  "get_args (TUnion args) = args"
| "get_args (TList args) = args"
| "get_args _ = []"

text \<open>
  \<^verbatim>\<open>
  def unwrap_optional_and_list(field_type):
      is_optional = False
      is_list = False
      inner_type = field_type
      origin = get_origin(field_type)
      args = get_args(field_type)
      if origin is Union:
          non_none_args = [arg for arg in args if arg != type(None)]
          if len(non_none_args) == 1:
              is_optional = True
              inner_type = non_none_args[0]
              _, is_list, inner_type = unwrap_optional_and_list(inner_type)
          else:
              inner_type = non_none_args[0] if non_none_args else field_type
      origin = get_origin(inner_type)
      if origin in (list, List):
          is_list = True
          args = get_args(inner_type)
          if args:
              inner_type = args[0]
              is_optional_elem, _, inner_type = unwrap_optional_and_list(inner_type)
      return is_optional, is_list, inner_type
  \<close>
  The first \<open>if\<close> computes the triple \<open>(is_optional, is_list, inner_type)\<close> that the
  second \<open>if\<close> starts from. \<open>non_none_args[0]\<close> and \<open>args[0]\<close> are read only from
  non-empty lists. The second recursive call is on an argument of the type the first
  one returned: the recursion is nested, and its termination needs the fact that the
  returned inner type is no larger than the input.
\<close>

function unwrap_optional_and_list :: "ftype \<Rightarrow> bool \<times> bool \<times> ftype" where
  "unwrap_optional_and_list field_type =
     (let origin = get_origin field_type;
          args = get_args field_type;
          (is_optional, is_list, inner_type) =
            (if origin = Some Union then
               (let non_none_args = filter (\<lambda>arg. arg \<noteq> TNone) args in
                if length non_none_args = 1 then
                  (case unwrap_optional_and_list (hd non_none_args) of
                     (_, is_list, inner_type) \<Rightarrow> (True, is_list, inner_type))
                else (False, False,
                      if non_none_args \<noteq> [] then hd non_none_args else field_type))
             else (False, False, field_type));
          origin = get_origin inner_type
      in if origin = Some List then
           (let args = get_args inner_type in
            if args \<noteq> [] then
              (case unwrap_optional_and_list (hd args) of
                 (is_optional_elem, _, inner_type) \<Rightarrow> (is_optional, True, inner_type))
            else (is_optional, True, inner_type))
         else (is_optional, is_list, inner_type))"
  by pat_completeness auto

lemma size_get_args: "a \<in> set (get_args t) \<Longrightarrow> size a < size t"
  by (cases t) (auto simp: less_Suc_eq_le size_list_estimation')

lemma hd_filter_in_set: "filter P xs \<noteq> [] \<Longrightarrow> hd (filter P xs) \<in> set xs"
  by (metis filter_is_subset hd_in_set subsetD)

lemma size_hd_get_args: "get_args t \<noteq> [] \<Longrightarrow> size (hd (get_args t)) < size t"
  by (simp add: size_get_args)

lemma size_hd_filter_get_args:
  "filter P (get_args t) \<noteq> [] \<Longrightarrow> size (hd (filter P (get_args t))) < size t"
  by (simp add: size_get_args hd_filter_in_set)

lemma size_hd_filter_get_args1:
  "length (filter P (get_args t)) = 1 \<Longrightarrow> size (hd (filter P (get_args t))) < size t"
  by (rule size_hd_filter_get_args) auto

lemma unwrap_inner_size:
  "unwrap_optional_and_list_dom t \<Longrightarrow> size (snd (snd (unwrap_optional_and_list t))) \<le> size t"
proof (induction t rule: unwrap_optional_and_list.pinduct)
  case (1 t)
  define nn where "nn = filter (\<lambda>arg. arg \<noteq> TNone) (get_args t)"
  define ph1 where "ph1 =
     (if get_origin t = Some Union then
        (if length nn = 1 then
           (case unwrap_optional_and_list (hd nn) of (_, l, i) \<Rightarrow> (True, l, i))
         else (False, False, if nn \<noteq> [] then hd nn else t))
      else (False, False, t))"
  define i1 where "i1 = snd (snd ph1)"
  have ih1: "size (snd (snd (unwrap_optional_and_list (hd nn)))) \<le> size (hd nn)"
    if "get_origin t = Some Union" "length nn = 1"
    using 1(2)[OF refl refl that(1) refl] that(2) unfolding nn_def by simp
  have nn_small: "size (hd nn) < size t" if "nn \<noteq> []"
    using that unfolding nn_def by (rule size_hd_filter_get_args)
  have s1: "size i1 \<le> size t"
  proof (cases "get_origin t = Some Union \<and> length nn = 1")
    case True
    then have "nn \<noteq> []" by auto
    with True ih1 nn_small show ?thesis
      by (auto simp: i1_def ph1_def split: prod.splits)
  next
    case False
    with nn_small show ?thesis
      by (auto simp: i1_def ph1_def)
  qed
  have ih2: "size (snd (snd (unwrap_optional_and_list (hd (get_args i1))))) \<le> size (hd (get_args i1))"
    if "get_origin i1 = Some List" "get_args i1 \<noteq> []"
    using 1(3)[of "get_origin t" "get_args t" ph1 "fst ph1" "snd ph1" "fst (snd ph1)" i1
               "get_origin i1" "get_args i1"] that
    unfolding i1_def ph1_def nn_def Let_def by simp
  have eq: "snd (snd (unwrap_optional_and_list t)) =
     (if get_origin i1 = Some List \<and> get_args i1 \<noteq> []
      then snd (snd (unwrap_optional_and_list (hd (get_args i1)))) else i1)"
    unfolding unwrap_optional_and_list.psimps[OF 1(1)] i1_def ph1_def nn_def Let_def
    by (simp split: prod.splits)
  show ?case
  proof (cases "get_origin i1 = Some List \<and> get_args i1 \<noteq> []")
    case True
    with ih2 size_hd_get_args[of i1] s1 show ?thesis
      unfolding eq by auto
  next
    case False
    with s1 show ?thesis unfolding eq by auto
  qed
qed

termination unwrap_optional_and_list
proof (relation "measure size", goal_cases)
  case 1
  show ?case by simp
next
  case (2 field_type x xa xb)
  then show ?case
    using size_hd_filter_get_args1[of "\<lambda>arg. arg \<noteq> TNone" field_type] by simp
next
  case (3 field_type x xa xb xc y xd ya xe xf)
  define nn where "nn = filter (\<lambda>arg. arg \<noteq> TNone) (get_args field_type)"
  have ya: "ya = snd (snd xb)"
    using 3(4,5) by (metis snd_conv)
  have xb: "xb =
     (if get_origin field_type = Some Union then
        (if length nn = 1 then
           (case unwrap_optional_and_list (hd nn) of (_, l, i) \<Rightarrow> (True, l, i))
         else (False, False, if nn \<noteq> [] then hd nn else field_type))
      else (False, False, field_type))"
    using 3(1,2,3) unfolding nn_def Let_def by simp
  have nn_small: "size (hd nn) < size field_type" if "nn \<noteq> []"
    using that unfolding nn_def by (rule size_hd_filter_get_args)
  have "size ya \<le> size field_type"
  proof (cases "get_origin field_type = Some Union \<and> length nn = 1")
    case True
    then have "unwrap_optional_and_list_dom (hd nn)"
      using 3(10)[OF _ refl] 3(1,2) unfolding nn_def by simp
    then have "size (snd (snd (unwrap_optional_and_list (hd nn)))) \<le> size (hd nn)"
      by (rule unwrap_inner_size)
    moreover have "nn \<noteq> []" using True by auto
    ultimately show ?thesis
      using True nn_small unfolding ya xb by (auto split: prod.splits)
  next
    case False
    then show ?thesis
      using nn_small unfolding ya xb by auto
  qed
  moreover have "size (hd (get_args ya)) < size ya"
    using 3(8,9) by (simp add: size_hd_get_args)
  ultimately show ?case
    using 3(8) by simp
qed

declare unwrap_optional_and_list.simps [simp del]

text \<open>
  \<^verbatim>\<open>
  def is_primitive_type(type_hint):
      primitives = (str, int, float, bool, type(None))
      if type_hint in primitives:
          return True
      origin = get_origin(type_hint)
      if origin is Union:
          return all(is_primitive_type(arg) for arg in get_args(type_hint))
      return False
  \<close>
\<close>

fun is_primitive_type :: "ftype \<Rightarrow> bool" where
  "is_primitive_type (TPrim p) = True"
| "is_primitive_type TNone = True"
| "is_primitive_type (TUnion args) = list_all is_primitive_type args"
| "is_primitive_type _ = False"

text \<open>\<^verbatim>\<open>is_pydantic_model(cls)\<close>: \<open>cls\<close> is a class that derives from \<^verbatim>\<open>BaseModel\<close>.\<close>

fun is_pydantic_model :: "ftype \<Rightarrow> bool" where
  "is_pydantic_model (TModel c) = True"
| "is_pydantic_model _ = False"

section \<open>Resource models and configuration\<close>

text \<open>
  A field's descriptor carries its type annotation, or none; \<^verbatim>\<open>get_field_type\<close> falls
  back to \<^verbatim>\<open>Any\<close>. The model classes are given by a registry that maps a class name to
  the class's fields in declaration order, so that models may refer to each other and
  to themselves, as FHIR resources do. \<^verbatim>\<open>get_model_fields\<close> returns the fields of a model
  class and the empty dictionary for anything else.
\<close>

type_synonym field_info = "ftype option"

type_synonym registry = "string \<Rightarrow> (string \<times> field_info) list"

fun get_model_fields :: "registry \<Rightarrow> ftype \<Rightarrow> (string \<times> field_info) list" where
  "get_model_fields reg (TModel c) = reg c"
| "get_model_fields reg _ = []"

fun get_field_type :: "field_info \<Rightarrow> ftype" where
  "get_field_type (Some t) = t"
| "get_field_type None = TAny"

text \<open>
  The \<^verbatim>\<open>schema\<close> section of the configuration dictionary. Every key may be absent;
  \<^verbatim>\<open>dict.get(key, default)\<close> supplies the default. The key \<^verbatim>\<open>case\<close> is the field
  \<open>case_style\<close>. The two limits are integers of either sign.
\<close>

record schema_config =
  max_depth :: "int option"
  separator :: "string option"
  case_style :: "string option"
  exclude_fields :: "string list option"
  include_fields :: "string list option"
  max_array_items :: "int option"

record config =
  schema :: "schema_config option"

definition dict_get :: "'a option \<Rightarrow> 'a \<Rightarrow> 'a" where
  "dict_get entry dflt = (case entry of Some v \<Rightarrow> v | None \<Rightarrow> dflt)"

definition empty_schema :: schema_config where
  "empty_schema = \<lparr>max_depth = None, separator = None, case_style = None,
     exclude_fields = None, include_fields = None, max_array_items = None\<rparr>"

text \<open>\<^verbatim>\<open>range(n)\<close>: the integers from 0 up to \<open>n - 1\<close>; empty when \<open>n \<le> 0\<close>.\<close>

definition py_range :: "int \<Rightarrow> int list" where
  "py_range n = [0..n - 1]"

section \<open>Schema flattener\<close>

text \<open>
  \<^verbatim>\<open>
  def flatten_schema(model_cls, config, prefix="", depth=0):
      schema_config = config.get('schema', {})
      if depth >= schema_config.get('max_depth', 3):
          return []
      separator = schema_config.get('separator', '_')
      case_style = schema_config.get('case', 'snake')
      exclude_fields = set(schema_config.get('exclude_fields', []))
      include_fields = set(schema_config.get('include_fields', []))
      max_array_items = schema_config.get('max_array_items', 3)
      columns = []
      fields = get_model_fields(model_cls)
      for field_name, field_info in fields.items():
          if field_name in exclude_fields:
              continue
          if include_fields and depth == 0 and field_name not in include_fields:
              continue
          field_type = get_field_type(field_info)
          is_optional, is_list, inner_type = unwrap_optional_and_list(field_type)
          if prefix:
              column_base = f"{prefix}{separator}{field_name}"
          else:
              column_base = field_name
          column_name = apply_case_style(column_base, case_style)
          if is_list:
              if is_primitive_type(inner_type):
                  for i in range(max_array_items):
                      indexed_name = apply_case_style(f"{column_base}{separator}{i}", case_style)
                      columns.append(indexed_name)
              else:
                  for i in range(max_array_items):
                      indexed_prefix = f"{column_base}{separator}{i}"
                      if is_pydantic_model(inner_type):
                          columns.extend(flatten_schema(inner_type, config, indexed_prefix, depth + 1))
                      else:
                          columns.append(apply_case_style(indexed_prefix, case_style))
          else:
              if is_pydantic_model(inner_type):
                  columns.extend(flatten_schema(inner_type, config, column_base, depth + 1))
              else:
                  columns.append(column_name)
      return columns
  \<close>
  Each loop appends to \<open>columns\<close> the columns of one field (of one index), in order:
  the result is the concatenation of the per-field (per-index) column lists; a
  \<^verbatim>\<open>continue\<close> contributes the empty list. The recursion is not structural (a model may
  contain itself); it terminates because \<open>max_depth - depth\<close> decreases.
\<close>

function flatten_schema :: "registry \<Rightarrow> ftype \<Rightarrow> config \<Rightarrow> string \<Rightarrow> int \<Rightarrow> string list" where
  "flatten_schema reg model_cls config prefix depth =
     (let schema_config = dict_get (schema config) empty_schema in
      if depth \<ge> dict_get (max_depth schema_config) 3 then []
      else
        let separator = dict_get (separator schema_config) ''_'';
            case_style = dict_get (case_style schema_config) ''snake'';
            exclude_fields = set (dict_get (exclude_fields schema_config) []);
            include_fields = set (dict_get (include_fields schema_config) []);
            max_array_items = dict_get (max_array_items schema_config) 3;
            fields = get_model_fields reg model_cls
        in concat (map (\<lambda>(field_name, field_info).
             if field_name \<in> exclude_fields then []
             else if include_fields \<noteq> {} \<and> depth = 0 \<and> field_name \<notin> include_fields then []
             else
               let field_type = get_field_type field_info;
                   (is_optional, is_list, inner_type) = unwrap_optional_and_list field_type;
                   column_base = (if prefix \<noteq> [] then prefix @ separator @ field_name
                                  else field_name);
                   column_name = apply_case_style column_base case_style
               in if is_list then
                    (if is_primitive_type inner_type then
                       map (\<lambda>i. apply_case_style (column_base @ separator @ str_int i) case_style)
                           (py_range max_array_items)
                     else
                       concat (map (\<lambda>i.
                          let indexed_prefix = column_base @ separator @ str_int i
                          in if is_pydantic_model inner_type then
                               flatten_schema reg inner_type config indexed_prefix (depth + 1)
                             else [apply_case_style indexed_prefix case_style])
                          (py_range max_array_items)))
                  else
                    (if is_pydantic_model inner_type then
                       flatten_schema reg inner_type config column_base (depth + 1)
                     else [column_name]))
             fields))"
  by pat_completeness auto
termination
  by (relation "measure (\<lambda>(reg, model_cls, config, prefix, depth).
        nat (dict_get (max_depth (dict_get (schema config) empty_schema)) 3 - depth))") auto

declare flatten_schema.simps [simp del]

section \<open>Notions used to state the claims\<close>

subsection \<open>The settings a configuration yields\<close>

text \<open>
  The values that \<open>flatten_schema\<close> binds at its start: each key of the \<^verbatim>\<open>schema\<close>
  section, with its default.
\<close>

definition cfg_schema :: "config \<Rightarrow> schema_config" where
  "cfg_schema config = dict_get (schema config) empty_schema"

definition cfg_max_depth :: "config \<Rightarrow> int" where
  "cfg_max_depth config = dict_get (max_depth (cfg_schema config)) 3"

definition cfg_separator :: "config \<Rightarrow> string" where
  "cfg_separator config = dict_get (separator (cfg_schema config)) ''_''"

definition cfg_case :: "config \<Rightarrow> string" where
  "cfg_case config = dict_get (case_style (cfg_schema config)) ''snake''"

definition cfg_exclude :: "config \<Rightarrow> string set" where
  "cfg_exclude config = set (dict_get (exclude_fields (cfg_schema config)) [])"

definition cfg_include :: "config \<Rightarrow> string set" where
  "cfg_include config = set (dict_get (include_fields (cfg_schema config)) [])"

definition cfg_max_array_items :: "config \<Rightarrow> int" where
  "cfg_max_array_items config = dict_get (max_array_items (cfg_schema config)) 3"

subsection \<open>The columns of one field\<close>

text \<open>
  The body of the loop over the fields, cut along its branches: \<open>selected\<close> is the
  negation of the two \<^verbatim>\<open>continue\<close> tests, \<open>column_base\<close> the column's base name,
  \<open>is_list_field\<close> and \<open>inner_type_of\<close> the second and third component of the unwrapped
  type, \<open>list_columns\<close> the branch of a list field and \<open>scalar_columns\<close> the branch of
  any other field. Lemma \<open>flatten_schema_fields\<close> proves that \<open>flatten_schema\<close> is the
  concatenation of \<open>field_columns\<close> over the model's fields.
\<close>

definition selected :: "config \<Rightarrow> int \<Rightarrow> string \<Rightarrow> bool" where
  "selected config depth field_name =
     (field_name \<notin> cfg_exclude config \<and>
      \<not> (cfg_include config \<noteq> {} \<and> depth = 0 \<and> field_name \<notin> cfg_include config))"

definition column_base :: "config \<Rightarrow> string \<Rightarrow> string \<Rightarrow> string" where
  "column_base config prefix field_name =
     (if prefix \<noteq> [] then prefix @ cfg_separator config @ field_name else field_name)"

definition is_list_field :: "field_info \<Rightarrow> bool" where
  "is_list_field field_info = fst (snd (unwrap_optional_and_list (get_field_type field_info)))"

definition inner_type_of :: "field_info \<Rightarrow> ftype" where
  "inner_type_of field_info = snd (snd (unwrap_optional_and_list (get_field_type field_info)))"

definition scalar_columns :: "registry \<Rightarrow> config \<Rightarrow> string \<Rightarrow> int \<Rightarrow> string \<times> field_info \<Rightarrow> string list" where
  "scalar_columns reg config prefix depth = (\<lambda>(field_name, field_info).
     if is_pydantic_model (inner_type_of field_info) then
       flatten_schema reg (inner_type_of field_info) config
         (column_base config prefix field_name) (depth + 1)
     else [apply_case_style (column_base config prefix field_name) (cfg_case config)])"

definition list_columns :: "registry \<Rightarrow> config \<Rightarrow> string \<Rightarrow> int \<Rightarrow> string \<times> field_info \<Rightarrow> string list" where
  "list_columns reg config prefix depth = (\<lambda>(field_name, field_info).
     concat (map (\<lambda>i.
        if is_pydantic_model (inner_type_of field_info) then
          flatten_schema reg (inner_type_of field_info) config
            (column_base config prefix field_name @ cfg_separator config @ str_int i) (depth + 1)
        else [apply_case_style
                (column_base config prefix field_name @ cfg_separator config @ str_int i)
                (cfg_case config)])
       (py_range (cfg_max_array_items config))))"

definition field_columns :: "registry \<Rightarrow> config \<Rightarrow> string \<Rightarrow> int \<Rightarrow> string \<times> field_info \<Rightarrow> string list" where
  "field_columns reg config prefix depth = (\<lambda>(field_name, field_info).
     if \<not> selected config depth field_name then []
     else if is_list_field field_info then list_columns reg config prefix depth (field_name, field_info)
     else scalar_columns reg config prefix depth (field_name, field_info))"

subsection \<open>Changing one setting, dropping one field\<close>

definition with_schema :: "(schema_config \<Rightarrow> schema_config) \<Rightarrow> config \<Rightarrow> config" where
  "with_schema f config = config\<lparr>schema := Some (f (cfg_schema config))\<rparr>"

definition set_max_depth :: "int \<Rightarrow> config \<Rightarrow> config" where
  "set_max_depth m = with_schema (\<lambda>s. s\<lparr>max_depth := Some m\<rparr>)"

definition set_max_array_items :: "int \<Rightarrow> config \<Rightarrow> config" where
  "set_max_array_items n = with_schema (\<lambda>s. s\<lparr>max_array_items := Some n\<rparr>)"

text \<open>The registry in which no model has a field of the given name.\<close>

definition drop_field :: "string \<Rightarrow> registry \<Rightarrow> registry" where
  "drop_field f reg = (\<lambda>c. filter (\<lambda>(field_name, field_info). field_name \<noteq> f) (reg c))"

subsection \<open>A run under the interpreter's recursion limit\<close>

text \<open>
  The interpreter raises \<^verbatim>\<open>RecursionError\<close> when a call would go deeper than its recursion
  limit, and \<open>flatten_schema\<close> has no handler: the error leaves it. The three helpers
  \<^verbatim>\<open>get_model_fields\<close>, \<^verbatim>\<open>get_field_type\<close> and \<^verbatim>\<open>is_pydantic_model\<close> run their bodies
  under \<^verbatim>\<open>except Exception\<close>, which also catches \<^verbatim>\<open>RecursionError\<close>, and return a fallback.
  In the run below, what the bodies of the helpers read may raise: the environment says,
  for each class, whether reading its fields raises and, for each field, whether reading
  its type raises, and whether importing \<^verbatim>\<open>pydantic\<close> raises.
\<close>

datatype py_error = RecursionError | OtherException

type_synonym field_read = "py_error + field_info"

type_synonym fields_read = "py_error + (string \<times> field_read) list"

record environment =
  import_pydantic :: "py_error option"
  read_fields :: "string \<Rightarrow> fields_read"



definition is_pydantic_model_try :: "environment \<Rightarrow> ftype \<Rightarrow> bool" where
  "is_pydantic_model_try env cls =
     (case import_pydantic env of None \<Rightarrow> is_pydantic_model cls | Some e \<Rightarrow> False)"




text \<open>The environment in which no read raises and the import succeeds.\<close>

definition reliable :: "registry \<Rightarrow> environment" where
  "reliable reg =
     \<lparr>import_pydantic = None,
      read_fields = (\<lambda>c. Inr (map (\<lambda>(field_name, field_info). (field_name, Inr field_info)) (reg c)))\<rparr>"





subsection \<open>Nested Optional and List wrappers\<close>

text \<open>
  A type built by nesting \<^verbatim>\<open>Optional[...]\<close> and \<^verbatim>\<open>List[...]\<close> around an inner type: the
  wrappers from the outside in. \<^verbatim>\<open>Optional[X]\<close> is \<^verbatim>\<open>Union[X, None]\<close>.
\<close>

datatype wrapper = WOptional | WList

fun wrap :: "wrapper list \<Rightarrow> ftype \<Rightarrow> ftype" where
  "wrap [] T = T"
| "wrap (WOptional # ws) T = TUnion [wrap ws T, TNone]"
| "wrap (WList # ws) T = TList [wrap ws T]"

subsection \<open>The scenario of the design\<close>

text \<open>
  The model \<open>{name: primitive, address: [composite{line: primitive}]}\<close>, for any two
  primitive types, and the configuration \<open>{max_depth: d, max_array_items: 2,
  separator: "_", case: "snake"}\<close>.
\<close>

definition scenario_registry :: "prim \<Rightarrow> prim \<Rightarrow> registry" where
  "scenario_registry p q = (\<lambda>c.
     if c = ''Patient'' then
       [(''name'', Some (TPrim p)), (''address'', Some (TList [TModel ''Address'']))]
     else if c = ''Address'' then [(''line'', Some (TPrim q))]
     else [])"

definition scenario_config :: "int \<Rightarrow> config" where
  "scenario_config d =
     \<lparr>schema = Some \<lparr>max_depth = Some d, separator = Some ''_'', case_style = Some ''snake'',
        exclude_fields = None, include_fields = None, max_array_items = Some 2\<rparr>\<rparr>"

text \<open>A configuration that names the field \<open>address\<close> both to include and to exclude.\<close>

definition both_config :: config where
  "both_config =
     \<lparr>schema = Some \<lparr>max_depth = Some 2, separator = Some ''_'', case_style = Some ''snake'',
        exclude_fields = Some [''address''], include_fields = Some [''name'', ''address''],
        max_array_items = Some 2\<rparr>\<rparr>"

section \<open>Naming transform: properties\<close>

subsection \<open>Characters\<close>

lemma of_char_less_256: "(of_char c :: nat) < 256"
  by (cases c) simp

lemma not_isupper_lower: "\<not> isupper (lower c)"
  by (auto simp: lower_def isupper_def of_char_of)

lemma lower_id: "\<not> isupper c \<Longrightarrow> lower c = c"
  by (simp add: lower_def)

lemma lower_lower: "lower (lower c) = lower c"
  by (simp add: lower_id not_isupper_lower)

lemma not_isupper_underscore: "\<not> isupper (CHR ''_'')"
  by (simp add: isupper_def)

lemma lower_underscore: "lower (CHR ''_'') = CHR ''_''"
  by (simp add: lower_id not_isupper_underscore)

lemma islower_not_isupper: "islower c \<Longrightarrow> \<not> isupper c"
  by (simp add: islower_def isupper_def)

lemma not_islower_upper: "\<not> islower (upper c)"
  by (auto simp: upper_def islower_def of_char_of)

lemma upper_id: "\<not> islower c \<Longrightarrow> upper c = c"
  by (simp add: upper_def)

lemma upper_upper: "upper (upper c) = upper c"
  by (simp add: upper_id not_islower_upper)

subsection \<open>Snake case\<close>

lemma to_snake_case_pieces:
  "to_snake_case name = concat (map (snake_piece name) [0..<length name])"
  by (simp add: to_snake_case_def snake_piece_def[abs_def])

lemma snake_pieces_suffix:
  "concat (map (snake_piece (pre @ suf)) [length pre..<length pre + length suf]) =
   map lower (insert_underscores (if pre = [] then None else Some (last pre)) suf)"
proof (induction suf arbitrary: pre)
  case Nil
  show ?case by simp
next
  case (Cons c cs)
  have range: "[length pre..<length pre + length (c # cs)] =
      length pre # [length (pre @ [c])..<length (pre @ [c]) + length cs]"
    by (simp add: upt_rec)
  have piece: "snake_piece (pre @ c # cs) (length pre) =
      map lower ((if isupper c \<and> pre \<noteq> [] \<and> (islower (last pre) \<or> (case cs of [] \<Rightarrow> False | n # _ \<Rightarrow> islower n))
        then ''_'' else []) @ [c])"
    by (cases cs; cases pre rule: rev_cases)
       (auto simp: snake_piece_def nth_append lower_underscore)
  have "concat (map (snake_piece (pre @ c # cs)) [length pre..<length pre + length (c # cs)]) =
        snake_piece (pre @ c # cs) (length pre) @
        concat (map (snake_piece ((pre @ [c]) @ cs)) [length (pre @ [c])..<length (pre @ [c]) + length cs])"
    unfolding range by simp
  also have "\<dots> = snake_piece (pre @ c # cs) (length pre) @
        map lower (insert_underscores (Some c) cs)"
    unfolding Cons.IH[of "pre @ [c]"] by simp
  finally show ?case
    unfolding piece by (cases "pre = []") auto
qed

lemma to_snake_case_spec: "to_snake_case name = snake_spec name"
  using snake_pieces_suffix[of "[]" name]
  by (simp add: to_snake_case_pieces snake_spec_def)

lemma not_isupper_snake_spec: "c \<in> set (snake_spec name) \<Longrightarrow> \<not> isupper c"
  by (auto simp: snake_spec_def not_isupper_lower)

lemma not_isupper_to_snake_case: "c \<in> set (to_snake_case name) \<Longrightarrow> \<not> isupper c"
  by (simp add: to_snake_case_spec not_isupper_snake_spec)


lemma map_lower_no_upper: "\<forall>c\<in>set name. \<not> isupper c \<Longrightarrow> map lower name = name"
  by (induction name) (auto simp: lower_id)



subsection \<open>Camel and Pascal case\<close>

lemma str_split_not_Nil: "str_split sep s \<noteq> []"
  by (induction s) (auto split: list.splits)

lemma set_str_split: "p \<in> set (str_split sep s) \<Longrightarrow> set p \<subseteq> set s"
proof (induction s arbitrary: p)
  case Nil
  then show ?case by simp
next
  case (Cons c cs)
  show ?case
  proof (cases "c = sep")
    case True
    with Cons show ?thesis by auto
  next
    case False
    obtain q qs where q: "str_split sep cs = q # qs"
      using str_split_not_Nil[of sep cs] by (cases "str_split sep cs") auto
    with False Cons.prems have "p = c # q \<or> p \<in> set qs" by auto
    with q Cons.IH[of q] Cons.IH[of p] show ?thesis by auto
  qed
qed

lemma capitalize_no_upper:
  "\<forall>c\<in>set p. \<not> isupper c \<Longrightarrow> capitalize p = upper_first p"
  by (cases p) (auto simp: map_lower_no_upper)

lemma upper_first_capitalize: "upper_first (capitalize p) = capitalize p"
  by (cases p) (auto simp: upper_upper)

lemma upper_first_append: "p \<noteq> [] \<Longrightarrow> upper_first (p @ q) = upper_first p @ q"
  by (cases p) auto

lemma upper_first_concat_capitalize:
  "upper_first (concat (map capitalize ps)) = concat (map capitalize ps)"
proof (induction ps)
  case Nil
  show ?case by simp
next
  case (Cons p ps)
  show ?case
  proof (cases p)
    case Nil
    with Cons show ?thesis by simp
  next
    case (Cons c cs)
    then have "capitalize p \<noteq> []" by simp
    then show ?thesis
      by (simp add: upper_first_append upper_first_capitalize del: capitalize.simps)
  qed
qed

lemma pascal_upper_first_camel: "to_pascal_case x = upper_first (to_camel_case x)"
proof -
  obtain p ps where parts: "str_split (CHR ''_'') (to_snake_case x) = p # ps"
    using str_split_not_Nil[of "CHR ''_''" "to_snake_case x"]
    by (cases "str_split (CHR ''_'') (to_snake_case x)") auto
  have "set p \<subseteq> set (to_snake_case x)"
    by (rule set_str_split[of _ "CHR ''_''"]) (simp add: parts)
  then have nu: "\<forall>c\<in>set p. \<not> isupper c"
    using not_isupper_to_snake_case by blast
  show ?thesis
  proof (cases "p = []")
    case True
    then show ?thesis
      by (simp add: to_pascal_case_def to_camel_case_def parts upper_first_concat_capitalize)
  next
    case False
    then show ?thesis
      by (simp add: to_pascal_case_def to_camel_case_def parts capitalize_no_upper[OF nu]
            upper_first_append)
  qed
qed

lemma to_snake_case_Cons: "\<exists>rest. to_snake_case (c # cs) = lower c # rest"
  by (simp add: to_snake_case_spec snake_spec_def)

lemma pascal_eq_camel:
  assumes "\<not> starts_with_letter x"
  shows "to_pascal_case x = to_camel_case x"
proof (cases x)
  case Nil
  then show ?thesis
    by (simp add: to_pascal_case_def to_camel_case_def to_snake_case_def)
next
  case (Cons c cs)
  with assms have c: "\<not> isupper c" "\<not> islower c"
    by (simp_all add: starts_with_letter_def isalpha_def)
  obtain rest where snake: "to_snake_case x = c # rest"
    using to_snake_case_Cons[of c cs] c(1) Cons by (auto simp: lower_id)
  obtain p ps where parts: "str_split (CHR ''_'') (to_snake_case x) = p # ps"
    using str_split_not_Nil[of "CHR ''_''" "to_snake_case x"]
    by (cases "str_split (CHR ''_'') (to_snake_case x)") auto
  have "set p \<subseteq> set (to_snake_case x)"
    by (rule set_str_split[of _ "CHR ''_''"]) (simp add: parts)
  then have nu: "\<forall>c\<in>set p. \<not> isupper c"
    using not_isupper_to_snake_case by blast
  have "p = [] \<or> (\<exists>q. p = c # q)"
    using parts unfolding snake by (auto split: if_splits list.splits)
  then have "capitalize p = p"
    using nu c(2) by (auto simp: map_lower_no_upper upper_id)
  then show ?thesis
    by (simp add: to_pascal_case_def to_camel_case_def parts)
qed

subsection \<open>The transform over any string methods\<close>

lemma to_snake_case_with_pieces:
  "to_snake_case_with M name = concat (map (snake_piece_with M name) [0..<length name])"
  by (simp add: to_snake_case_with_def snake_piece_with_def[abs_def])

lemma snake_pieces_with_suffix:
  assumes us: "char_lower M (underscore M) = [underscore M]"
  shows "concat (map (snake_piece_with M (pre @ suf)) [length pre..<length pre + length suf]) =
   concat (map (char_lower M)
     (insert_underscores_with M (if pre = [] then None else Some (last pre)) suf))"
proof (induction suf arbitrary: pre)
  case Nil
  show ?case by simp
next
  case (Cons c cs)
  have range: "[length pre..<length pre + length (c # cs)] =
      length pre # [length (pre @ [c])..<length (pre @ [c]) + length cs]"
    by (simp add: upt_rec)
  have piece: "snake_piece_with M (pre @ c # cs) (length pre) =
      concat (map (char_lower M)
        ((if char_isupper M c \<and> pre \<noteq> [] \<and>
             (char_islower M (last pre) \<or> (case cs of [] \<Rightarrow> False | n # _ \<Rightarrow> char_islower M n))
          then [underscore M] else []) @ [c]))"
    by (cases cs; cases pre rule: rev_cases)
       (auto simp: snake_piece_with_def nth_append us)
  have "concat (map (snake_piece_with M (pre @ c # cs)) [length pre..<length pre + length (c # cs)]) =
        snake_piece_with M (pre @ c # cs) (length pre) @
        concat (map (snake_piece_with M ((pre @ [c]) @ cs))
          [length (pre @ [c])..<length (pre @ [c]) + length cs])"
    unfolding range by simp
  also have "\<dots> = snake_piece_with M (pre @ c # cs) (length pre) @
        concat (map (char_lower M) (insert_underscores_with M (Some c) cs))"
    unfolding Cons.IH[of "pre @ [c]"] by simp
  finally show ?case
    unfolding piece by (cases "pre = []") auto
qed

lemma ascii_instance:
  "to_snake_case_with ascii_methods name = to_snake_case name"
  "to_camel_case_with ascii_methods name = to_camel_case name"
  "to_pascal_case_with ascii_methods name = to_pascal_case name"
  by (simp_all add: to_snake_case_with_def to_snake_case_def to_camel_case_with_def
        to_camel_case_def to_pascal_case_with_def to_pascal_case_def ascii_methods_def
        cong: if_cong list.case_cong)

lemma ascii_agreesD:
  assumes "ascii_agrees M"
  shows "underscore M = CHR ''_''"
    and "is_ascii c \<Longrightarrow> char_isupper M c = isupper c"
    and "is_ascii c \<Longrightarrow> char_islower M c = islower c"
    and "is_ascii c \<Longrightarrow> char_lower M c = [lower c]"
    and "is_ascii c \<Longrightarrow> char_upper M c = [upper c]"
    and "ascii_string w \<Longrightarrow> str_capitalize M w = capitalize w"
  using assms by (simp_all add: ascii_agrees_def)

lemma is_ascii_lower: "is_ascii c \<Longrightarrow> is_ascii (lower c)"
  by (auto simp: is_ascii_def lower_def isupper_def)

lemma is_ascii_upper: "is_ascii c \<Longrightarrow> is_ascii (upper c)"
  by (auto simp: is_ascii_def upper_def islower_def)

lemma is_ascii_underscore: "is_ascii (CHR ''_'')"
  by (simp add: is_ascii_def)

lemma ascii_string_nth: "ascii_string x \<Longrightarrow> i < length x \<Longrightarrow> is_ascii (x ! i)"
  by (simp add: ascii_string_def list_all_length)

lemma to_snake_case_with_ascii:
  assumes M: "ascii_agrees M" and x: "ascii_string x"
  shows "to_snake_case_with M x = to_snake_case x"
proof -
  have "snake_piece_with M x i = snake_piece x i" if "i < length x" for i
  proof -
    have a: "is_ascii (x ! i)" using x that by (rule ascii_string_nth)
    have b: "is_ascii (x ! (i - 1))" using x that by (intro ascii_string_nth) auto
    have c: "is_ascii (x ! (i + 1))" if "i + 1 < length x"
      using x that by (rule ascii_string_nth)
    show ?thesis
      using a b c
      by (auto simp: snake_piece_with_def snake_piece_def ascii_agreesD[OF M])
  qed
  then have eq: "map (snake_piece_with M x) [0..<length x] = map (snake_piece x) [0..<length x]"
    by (intro map_cong) auto
  show ?thesis
    unfolding to_snake_case_with_pieces to_snake_case_pieces eq ..
qed

lemma ascii_string_to_snake_case: "ascii_string x \<Longrightarrow> ascii_string (to_snake_case x)"
  by (auto simp: ascii_string_def list_all_iff to_snake_case_def is_ascii_lower
        is_ascii_underscore split: if_splits)

lemma ascii_string_parts:
  "ascii_string s \<Longrightarrow> p \<in> set (str_split sep s) \<Longrightarrow> ascii_string p"
  using set_str_split[of p sep s] by (auto simp: ascii_string_def list_all_iff)

lemma map_capitalize_with_ascii:
  assumes M: "ascii_agrees M" and ps: "\<forall>p\<in>set ps. ascii_string p"
  shows "map (str_capitalize M) ps = map capitalize ps"
  using ps by (simp add: ascii_agreesD(6)[OF M])

lemma to_camel_case_with_ascii:
  assumes M: "ascii_agrees M" and x: "ascii_string x"
  shows "to_camel_case_with M x = to_camel_case x"
proof -
  have parts: "\<forall>p\<in>set (str_split (CHR ''_'') (to_snake_case x)). ascii_string p"
    using ascii_string_parts[OF ascii_string_to_snake_case[OF x]] by blast
  show ?thesis
    using parts
    by (auto simp: to_camel_case_with_def to_camel_case_def to_snake_case_with_ascii[OF M x]
          ascii_agreesD(1)[OF M] ascii_agreesD(6)[OF M] split: list.splits
          intro!: arg_cong[where f=concat])
qed

lemma to_pascal_case_with_ascii:
  assumes M: "ascii_agrees M" and x: "ascii_string x"
  shows "to_pascal_case_with M x = to_pascal_case x"
proof -
  have parts: "\<forall>p\<in>set (str_split (CHR ''_'') (to_snake_case x)). ascii_string p"
    using ascii_string_parts[OF ascii_string_to_snake_case[OF x]] by blast
  show ?thesis
    by (simp add: to_pascal_case_with_def to_pascal_case_def to_snake_case_with_ascii[OF M x]
          ascii_agreesD(1)[OF M] map_capitalize_with_ascii[OF M parts])
qed

lemma ascii_string_capitalize: "ascii_string p \<Longrightarrow> ascii_string (capitalize p)"
  by (cases p) (auto simp: ascii_string_def list_all_iff is_ascii_lower is_ascii_upper)

lemma ascii_string_to_camel_case: "ascii_string x \<Longrightarrow> ascii_string (to_camel_case x)"
proof -
  assume x: "ascii_string x"
  have parts: "\<forall>p\<in>set (str_split (CHR ''_'') (to_snake_case x)). ascii_string p"
    using ascii_string_parts[OF ascii_string_to_snake_case[OF x]] by blast
  obtain p ps where split: "str_split (CHR ''_'') (to_snake_case x) = p # ps"
    using str_split_not_Nil[of "CHR ''_''" "to_snake_case x"]
    by (cases "str_split (CHR ''_'') (to_snake_case x)") auto
  have p: "ascii_string p" and ps: "\<forall>q\<in>set ps. ascii_string (capitalize q)"
    using parts ascii_string_capitalize unfolding split by auto
  have "list_all is_ascii (concat (map capitalize ps))"
    using ps by (induction ps) (auto simp: ascii_string_def)
  with p show ?thesis
    by (simp add: to_camel_case_def split ascii_string_def)
qed

lemma upper_first_with_ascii:
  assumes M: "ascii_agrees M" and y: "ascii_string y"
  shows "upper_first_with M y = upper_first y"
  using y by (cases y) (simp_all add: ascii_agreesD(5)[OF M] ascii_string_def)

lemma sample_lower_ascii: "is_ascii c \<Longrightarrow> sample_lower c = [lower c]"
  by (auto simp: sample_lower_def is_ascii_def)

lemma sample_title_ascii: "is_ascii c \<Longrightarrow> sample_title c = [upper c]"
  by (auto simp: sample_title_def is_ascii_def)

lemma sample_capitalize_ascii:
  "ascii_string w \<Longrightarrow>
   (case w of [] \<Rightarrow> [] | c # cs \<Rightarrow> sample_title c @ concat (map sample_lower cs)) =
   capitalize w"
proof (cases w)
  case Nil
  then show ?thesis by simp
next
  case (Cons c cs)
  assume "ascii_string w"
  with Cons have c: "is_ascii c" and cs: "list_all is_ascii cs"
    by (simp_all add: ascii_string_def)
  from cs have "concat (map sample_lower cs) = map lower cs"
    by (induction cs) (simp_all add: sample_lower_ascii)
  with c Cons show ?thesis
    by (simp add: sample_title_ascii)
qed

lemma ascii_agrees_sample: "ascii_agrees sample_methods"
  by (auto simp: ascii_agrees_def sample_methods_def sample_lower_ascii
        sample_capitalize_ascii is_ascii_def)

subsection \<open>Claims about the naming transform\<close>

text \<open>
  C5: for every string, \<open>to_snake_case\<close> inserts an underscore before exactly those
  upper-case letters that are not the first character and are preceded by a lower-case
  letter or followed by a lower-case letter, and lowers every character of the result;
  on the empty string it returns the empty string. This holds whatever the tables of
  \<^verbatim>\<open>str.isupper\<close>, \<^verbatim>\<open>str.islower\<close> and \<^verbatim>\<open>str.lower\<close> are, over any characters, given
  only that the lower case of the underscore is the underscore (as in Python): the loop
  of the source, which decides at each index and lowers as it goes, computes the
  two-pass rule \<open>snake_spec_with\<close>.
\<close>

theorem to_snake_case_with_is_snake_spec:
  assumes "char_lower M (underscore M) = [underscore M]"
  shows "to_snake_case_with M name = snake_spec_with M name \<and> to_snake_case_with M [] = []"
  using snake_pieces_with_suffix[OF assms, of "[]" name]
  by (simp add: to_snake_case_with_pieces snake_spec_with_def)

theorem to_snake_case_with_is_snake_spec_witness:
  "char_lower sample_methods (underscore sample_methods) = [underscore sample_methods] \<and>
   to_snake_case_with sample_methods [CHR ''a'', CHR 0xC9, CHR ''b''] =
     snake_spec_with sample_methods [CHR ''a'', CHR 0xC9, CHR ''b''] \<and>
   to_snake_case_with sample_methods [CHR ''a'', CHR 0xC9, CHR ''b''] =
     [CHR ''a'', CHR ''_'', CHR 0xE9, CHR ''b'']"
proof -
  have h: "char_lower sample_methods (underscore sample_methods) = [underscore sample_methods]"
    by code_simp
  have e: "snake_spec_with sample_methods [CHR ''a'', CHR 0xC9, CHR ''b''] =
      [CHR ''a'', CHR ''_'', CHR 0xE9, CHR ''b'']"
    by code_simp
  from to_snake_case_with_is_snake_spec[OF h, of "[CHR ''a'', CHR 0xC9, CHR ''b'']"] e h
  show ?thesis by simp
qed



text \<open>
  C10, as stated, fails outside ASCII: for the string made of the sharp s (U+00DF) and
  \<open>a\<close>, \<^verbatim>\<open>capitalize\<close> title-cases the sharp s, so the Pascal transform gives \<open>Ssa\<close>; the
  camel transform leaves the string as it is, and its first character in upper case
  gives \<open>SSa\<close>.
\<close>

theorem pascal_camel_sharp_s_counterexample:
  "to_pascal_case_with sample_methods [CHR 0xDF, CHR ''a''] = ''Ssa'' \<and>
   upper_first_with sample_methods (to_camel_case_with sample_methods [CHR 0xDF, CHR ''a'']) =
     ''SSa'' \<and>
   to_pascal_case_with sample_methods [CHR 0xDF, CHR ''a''] \<noteq>
     upper_first_with sample_methods (to_camel_case_with sample_methods [CHR 0xDF, CHR ''a''])"
  by code_simp

text \<open>
  C10, amended: for every string of ASCII characters, the Pascal transform is the camel
  transform with its first character in upper case, and the two agree when the string is
  empty or starts with a character that is not a letter. This holds for any string
  methods that follow the ASCII rule on ASCII characters, as Python's do.
\<close>

theorem pascal_is_camel_upper_first_ascii:
  assumes "ascii_agrees M" and "ascii_string x"
  shows "to_pascal_case_with M x = upper_first_with M (to_camel_case_with M x) \<and>
         (\<not> starts_with_letter x \<longrightarrow> to_pascal_case_with M x = to_camel_case_with M x)"
  using pascal_upper_first_camel[of x] pascal_eq_camel[of x]
  by (simp add: to_pascal_case_with_ascii[OF assms] to_camel_case_with_ascii[OF assms]
        upper_first_with_ascii[OF assms(1) ascii_string_to_camel_case[OF assms(2)]])

theorem pascal_is_camel_upper_first_ascii_witness:
  "ascii_agrees sample_methods \<and> ascii_string ''1ab'' \<and> \<not> starts_with_letter ''1ab'' \<and>
   to_pascal_case_with sample_methods ''1ab'' = to_camel_case_with sample_methods ''1ab'' \<and>
   ascii_string ''ab_cd'' \<and>
   to_pascal_case_with sample_methods ''ab_cd'' =
     upper_first_with sample_methods (to_camel_case_with sample_methods ''ab_cd'') \<and>
   to_camel_case_with sample_methods ''ab_cd'' = ''abCd'' \<and>
   to_pascal_case_with sample_methods ''ab_cd'' = ''AbCd''"
proof -
  have a1: "ascii_string ''1ab''" and a2: "ascii_string ''ab_cd''"
    by code_simp+
  have n: "\<not> starts_with_letter ''1ab''"
    by code_simp
  have c: "to_camel_case_with sample_methods ''ab_cd'' = ''abCd''"
    by code_simp
  have u: "upper_first_with sample_methods ''abCd'' = ''AbCd''"
    by code_simp
  have p1: "to_pascal_case_with sample_methods ''1ab'' =
      to_camel_case_with sample_methods ''1ab''"
    using pascal_is_camel_upper_first_ascii[OF ascii_agrees_sample a1] n by blast
  have p2: "to_pascal_case_with sample_methods ''ab_cd'' =
      upper_first_with sample_methods (to_camel_case_with sample_methods ''ab_cd'')"
    using pascal_is_camel_upper_first_ascii[OF ascii_agrees_sample a2] by blast
  have p3: "to_pascal_case_with sample_methods ''ab_cd'' = ''AbCd''"
    using p2 unfolding c u .
  from ascii_agrees_sample a1 n p1 a2 p2 c p3
  show ?thesis by blast
qed

section \<open>Type unwrapping: properties\<close>

lemma wrap_not_TNone: "T \<noteq> TNone \<Longrightarrow> wrap ws T \<noteq> TNone"
  by (cases "(ws, T)" rule: wrap.cases) auto

lemma unwrap_no_origin:
  "get_origin T = None \<Longrightarrow> unwrap_optional_and_list T = (False, False, T)"
  by (subst unwrap_optional_and_list.simps) simp

lemma unwrap_Optional:
  assumes "t \<noteq> TNone" "unwrap_optional_and_list t = (is_opt, is_list, T)" "get_origin T = None"
  shows "unwrap_optional_and_list (TUnion [t, TNone]) = (True, is_list, T)"
  using assms by (subst unwrap_optional_and_list.simps) simp

lemma unwrap_List:
  assumes "unwrap_optional_and_list t = (is_opt, is_list, T)"
  shows "unwrap_optional_and_list (TList [t]) = (False, True, T)"
  using assms by (subst unwrap_optional_and_list.simps) simp

text \<open>
  C1, as stated, fails: \<open>is_optional\<close> is not set by an Optional layer that lies under a
  List layer. For \<^verbatim>\<open>List[Optional[str]]\<close> the first \<open>if\<close> is skipped, and the second
  one binds the element's flag to \<open>is_optional_elem\<close>, which is not returned: the result
  is \<open>(False, True, str)\<close> and not \<open>(True, True, str)\<close>. Nor is the inner type returned
  as it is when it is a Union of several types: for \<^verbatim>\<open>Union[int, str]\<close> under no wrapper,
  the \<open>else\<close> branch takes the first member, \<^verbatim>\<open>int\<close>.
\<close>

theorem unwrap_list_of_optional_counterexample:
  "unwrap_optional_and_list (wrap [WList, WOptional] (TPrim PStr)) = (False, True, TPrim PStr) \<and>
   unwrap_optional_and_list (wrap [WList, WOptional] (TPrim PStr)) \<noteq> (True, True, TPrim PStr) \<and>
   unwrap_optional_and_list (wrap [] (TUnion [TPrim PInt, TPrim PStr])) = (False, False, TPrim PInt)"
  by code_simp

text \<open>
  C1, amended: for every type built by nesting Optional and List wrappers in any order
  around an inner type \<open>T\<close> that is itself neither a Union, nor a List, nor \<^verbatim>\<open>NoneType\<close>,
  \<open>is_optional\<close> is true if and only if the outermost layer is Optional, \<open>is_list\<close> is
  true if and only if at least one List layer is present anywhere in the nesting, and
  \<open>inner_type\<close> is \<open>T\<close>.
\<close>

theorem unwrap_nested_wrappers:
  assumes "get_origin T = None" "T \<noteq> TNone"
  shows "unwrap_optional_and_list (wrap ws T) =
         ((case ws of WOptional # _ \<Rightarrow> True | _ \<Rightarrow> False), WList \<in> set ws, T)"
proof (induction ws)
  case Nil
  from assms show ?case by (simp add: unwrap_no_origin)
next
  case (Cons w ws)
  show ?case
  proof (cases w)
    case WOptional
    with Cons assms show ?thesis
      by (simp add: unwrap_Optional[OF wrap_not_TNone])
  next
    case WList
    with Cons show ?thesis
      by (simp add: unwrap_List)
  qed
qed

theorem unwrap_nested_wrappers_witness:
  "get_origin (TModel ''Address'') = None \<and> TModel ''Address'' \<noteq> TNone \<and>
   unwrap_optional_and_list (wrap [WOptional, WList] (TModel ''Address'')) =
     (True, True, TModel ''Address'')"
  using unwrap_nested_wrappers[of "TModel ''Address''" "[WOptional, WList]"] by simp

section \<open>Schema flattener: properties\<close>

lemma pydantic_not_primitive: "is_pydantic_model t \<Longrightarrow> \<not> is_primitive_type t"
  by (cases t) auto

lemma concat_map_single: "concat (map (\<lambda>i. [f i]) xs) = map f xs"
  by (induction xs) auto

lemma flatten_schema_fields:
  "flatten_schema reg model_cls config prefix depth =
     (if cfg_max_depth config \<le> depth then []
      else concat (map (field_columns reg config prefix depth) (get_model_fields reg model_cls)))"
proof (cases "cfg_max_depth config \<le> depth")
  case True
  then show ?thesis
    by (subst flatten_schema.simps) (simp add: cfg_max_depth_def cfg_schema_def Let_def)
next
  case False
  have body: "(\<lambda>(field_name, field_info).
             if field_name \<in> cfg_exclude config then []
             else if cfg_include config \<noteq> {} \<and> depth = 0 \<and> field_name \<notin> cfg_include config then []
             else
               let field_type = get_field_type field_info;
                   (is_optional, is_list, inner_type) = unwrap_optional_and_list field_type;
                   column_base = (if prefix \<noteq> [] then prefix @ cfg_separator config @ field_name
                                  else field_name);
                   column_name = apply_case_style column_base (cfg_case config)
               in if is_list then
                    (if is_primitive_type inner_type then
                       map (\<lambda>i. apply_case_style (column_base @ cfg_separator config @ str_int i) (cfg_case config))
                           (py_range (cfg_max_array_items config))
                     else
                       concat (map (\<lambda>i.
                          let indexed_prefix = column_base @ cfg_separator config @ str_int i
                          in if is_pydantic_model inner_type then
                               flatten_schema reg inner_type config indexed_prefix (depth + 1)
                             else [apply_case_style indexed_prefix (cfg_case config)])
                          (py_range (cfg_max_array_items config))))
                  else
                    (if is_pydantic_model inner_type then
                       flatten_schema reg inner_type config column_base (depth + 1)
                     else [column_name])) = field_columns reg config prefix depth"
    by (rule ext)
       (auto simp: field_columns_def selected_def list_columns_def scalar_columns_def
          is_list_field_def inner_type_of_def column_base_def Let_def concat_map_single
          pydantic_not_primitive split: prod.splits)
  show ?thesis
    using False
    apply (subst flatten_schema.simps)
    apply (simp only: Let_def cfg_max_depth_def[symmetric] cfg_schema_def[symmetric]
           cfg_separator_def[symmetric] cfg_case_def[symmetric] cfg_exclude_def[symmetric]
           cfg_include_def[symmetric] cfg_max_array_items_def[symmetric])
    apply (simp only: body[unfolded Let_def])
    done
qed

lemma py_range_nonpos: "n \<le> 0 \<Longrightarrow> py_range n = []"
  by (simp add: py_range_def)

lemma list_columns_no_items:
  "cfg_max_array_items config \<le> 0 \<Longrightarrow> list_columns reg config prefix depth field = []"
  by (cases field) (simp add: list_columns_def py_range_nonpos)

lemma concat_map_filter_if:
  "concat (map g (filter P xs)) = concat (map (\<lambda>x. if P x then g x else []) xs)"
  by (induction xs) auto

lemma flatten_cutoff: "cfg_max_depth config \<le> depth \<Longrightarrow> flatten_schema reg model_cls config prefix depth = []"
  by (simp add: flatten_schema_fields)

lemma cfg_set_max_depth [simp]:
  "cfg_max_depth (set_max_depth m config) = m"
  by (simp add: set_max_depth_def with_schema_def cfg_max_depth_def cfg_schema_def dict_get_def)

lemma cfg_set_max_array_items [simp]:
  "cfg_max_array_items (set_max_array_items n config) = n"
  "cfg_max_depth (set_max_array_items n config) = cfg_max_depth config"
  "cfg_separator (set_max_array_items n config) = cfg_separator config"
  "cfg_case (set_max_array_items n config) = cfg_case config"
  "cfg_exclude (set_max_array_items n config) = cfg_exclude config"
  "cfg_include (set_max_array_items n config) = cfg_include config"
  by (simp_all add: set_max_array_items_def with_schema_def cfg_max_array_items_def
        cfg_max_depth_def cfg_separator_def cfg_case_def cfg_exclude_def cfg_include_def
        cfg_schema_def dict_get_def)

lemma flatten_negative_items:
  assumes "n < 0"
  shows "flatten_schema reg model_cls (set_max_array_items n config) prefix depth =
         flatten_schema reg model_cls (set_max_array_items 0 config) prefix depth"
proof (induction "nat (cfg_max_depth config - depth)" arbitrary: depth model_cls prefix)
  case 0
  then show ?case by (simp add: flatten_cutoff)
next
  case (Suc k)
  have IH: "flatten_schema reg t (set_max_array_items n config) p (depth + 1) =
            flatten_schema reg t (set_max_array_items 0 config) p (depth + 1)" for t p
    using Suc(2) by (intro Suc(1)) simp
  have "field_columns reg (set_max_array_items n config) prefix depth field =
        field_columns reg (set_max_array_items 0 config) prefix depth field" for field
    using assms
    by (cases field)
       (simp add: field_columns_def selected_def list_columns_no_items scalar_columns_def
          column_base_def IH)
  then have "field_columns reg (set_max_array_items n config) prefix depth =
        field_columns reg (set_max_array_items 0 config) prefix depth"
    by (intro ext)
  then show ?case
    by (simp add: flatten_schema_fields)
qed

lemma get_model_fields_drop_field:
  "get_model_fields (drop_field f reg) t =
   filter (\<lambda>(field_name, field_info). field_name \<noteq> f) (get_model_fields reg t)"
  by (cases t) (simp_all add: drop_field_def)

subsection \<open>Evaluating the scenario\<close>

lemma scenario_settings:
  "cfg_max_depth (scenario_config d) = d"
  "cfg_separator (scenario_config d) = ''_''"
  "cfg_case (scenario_config d) = ''snake''"
  "cfg_exclude (scenario_config d) = {}"
  "cfg_include (scenario_config d) = {}"
  "cfg_max_array_items (scenario_config d) = 2"
  by (simp_all add: scenario_config_def cfg_max_depth_def cfg_separator_def cfg_case_def
        cfg_exclude_def cfg_include_def cfg_max_array_items_def cfg_schema_def dict_get_def)

lemma scenario_fields:
  "scenario_registry p q ''Patient'' =
     [(''name'', Some (TPrim p)), (''address'', Some (TList [TModel ''Address'']))]"
  "scenario_registry p q ''Address'' = [(''line'', Some (TPrim q))]"
  by (simp_all add: scenario_registry_def)

lemma field_kinds:
  "is_list_field (Some (TPrim p)) = False"
  "inner_type_of (Some (TPrim p)) = TPrim p"
  "is_list_field (Some (TList [TModel c])) = True"
  "inner_type_of (Some (TList [TModel c])) = TModel c"
  by (simp_all add: is_list_field_def inner_type_of_def unwrap_no_origin
        unwrap_List[OF unwrap_no_origin])

lemma py_range_2: "py_range 2 = [0, 1]"
  by code_simp

lemma scenario_names:
  "str_int 0 = ''0''" "str_int 1 = ''1''"
  "apply_case_style ''name'' ''snake'' = ''name''"
  "apply_case_style ''address_0_line'' ''snake'' = ''address_0_line''"
  "apply_case_style ''address_1_line'' ''snake'' = ''address_1_line''"
  by code_simp+

lemma scenario_address:
  "flatten_schema (scenario_registry p q) (TModel ''Address'') (scenario_config 2) ''address_0'' 1
     = [''address_0_line'']"
  "flatten_schema (scenario_registry p q) (TModel ''Address'') (scenario_config 2) ''address_1'' 1
     = [''address_1_line'']"
  by (simp_all add: flatten_schema_fields scenario_settings scenario_fields field_columns_def
        selected_def scalar_columns_def column_base_def field_kinds scenario_names)

lemma scenario_patient_depth_2:
  "flatten_schema (scenario_registry p q) (TModel ''Patient'') (scenario_config 2) [] 0 =
     [''name'', ''address_0_line'', ''address_1_line'']"
  by (simp add: flatten_schema_fields[of _ "TModel ''Patient''"] scenario_settings scenario_fields field_columns_def
        selected_def scalar_columns_def list_columns_def column_base_def field_kinds
        py_range_2 scenario_names scenario_address)

subsection \<open>The run under a recursion limit\<close>








lemma is_pydantic_model_try_reliable [simp]:
  "is_pydantic_model_try (reliable reg) t = is_pydantic_model t"
  by (simp add: is_pydantic_model_try_def reliable_def)






subsection \<open>Claims about the schema flattener\<close>

text \<open>
  C3: for the model \<open>{name: primitive, address: List-of-composite{line: primitive}}\<close>
  and \<open>max_depth = 1\<close>, \<open>max_array_items = 2\<close>, separator \<open>_\<close>, snake case,
  \<open>flatten_schema\<close> returns exactly \<open>["name"]\<close>: the recursive calls for \<open>address_0\<close>
  and \<open>address_1\<close>, at depth 1, hit the depth cutoff and return no column.
\<close>

theorem scenario_depth_1:
  "flatten_schema (scenario_registry p q) (TModel ''Patient'') (scenario_config 1) [] 0 =
     [''name''] \<and>
   flatten_schema (scenario_registry p q) (TModel ''Address'') (scenario_config 1)
     ''address_0'' 1 = [] \<and>
   flatten_schema (scenario_registry p q) (TModel ''Address'') (scenario_config 1)
     ''address_1'' 1 = []"
  by (simp add: flatten_schema_fields[of _ "TModel ''Patient''"] flatten_cutoff scenario_settings scenario_fields field_columns_def
        selected_def scalar_columns_def list_columns_def column_base_def field_kinds
        py_range_2 scenario_names)

text \<open>
  C4: for the same model and \<open>max_depth = 2\<close>, \<open>flatten_schema\<close> returns exactly
  \<open>["name", "address_0_line", "address_1_line"]\<close>, in that order.
\<close>

theorem scenario_depth_2:
  "flatten_schema (scenario_registry p q) (TModel ''Patient'') (scenario_config 2) [] 0 =
     [''name'', ''address_0_line'', ''address_1_line'']"
  by (rule scenario_patient_depth_2)




text \<open>
  C7: when \<open>max_array_items = 0\<close>, every list-typed field, whatever its inner type,
  contributes no column, and every other selected field contributes what its branch of
  the loop gives: the recursion into a composite type, one column otherwise.
\<close>

theorem no_array_items_no_list_columns:
  assumes "cfg_max_array_items config = 0"
  shows "flatten_schema reg model_cls config prefix depth =
     (if cfg_max_depth config \<le> depth then []
      else concat (map (scalar_columns reg config prefix depth)
             (filter (\<lambda>(field_name, field_info).
                        selected config depth field_name \<and> \<not> is_list_field field_info)
                (get_model_fields reg model_cls))))"
proof -
  have "field_columns reg config prefix depth field =
        (if (case field of (field_name, field_info) \<Rightarrow>
               selected config depth field_name \<and> \<not> is_list_field field_info)
         then scalar_columns reg config prefix depth field else [])" for field
    using assms by (cases field) (simp add: field_columns_def list_columns_no_items)
  then have "field_columns reg config prefix depth =
        (\<lambda>field. if (case field of (field_name, field_info) \<Rightarrow>
               selected config depth field_name \<and> \<not> is_list_field field_info)
         then scalar_columns reg config prefix depth field else [])"
    by (intro ext)
  then show ?thesis
    by (simp add: flatten_schema_fields concat_map_filter_if)
qed

theorem no_array_items_no_list_columns_witness:
  "cfg_max_array_items (set_max_array_items 0 (scenario_config 2)) = 0 \<and>
   flatten_schema (scenario_registry PStr PStr) (TModel ''Patient'')
     (set_max_array_items 0 (scenario_config 2)) [] 0 = [''name'']"
proof -
  have h: "cfg_max_array_items (set_max_array_items 0 (scenario_config 2)) = 0"
    by simp
  have "(if cfg_max_depth (set_max_array_items 0 (scenario_config 2)) \<le> 0 then []
      else concat (map (scalar_columns (scenario_registry PStr PStr)
                          (set_max_array_items 0 (scenario_config 2)) [] 0)
             (filter (\<lambda>(field_name, field_info).
                        selected (set_max_array_items 0 (scenario_config 2)) 0 field_name \<and>
                        \<not> is_list_field field_info)
                (get_model_fields (scenario_registry PStr PStr) (TModel ''Patient''))))) =
        [''name'']"
    by code_simp
  with no_array_items_no_list_columns[OF h, of "scenario_registry PStr PStr"
         "TModel ''Patient''" "[]" 0] h
  show ?thesis by simp
qed

text \<open>
  C8: a field whose name is in \<open>exclude_fields\<close> contributes no column, at any depth and
  whether or not its name is also in \<open>include_fields\<close>: the output is that of the models
  without the field.
\<close>

theorem excluded_field_no_columns:
  assumes "f \<in> cfg_exclude config"
  shows "flatten_schema (drop_field f reg) model_cls config prefix depth =
         flatten_schema reg model_cls config prefix depth"
proof (induction "nat (cfg_max_depth config - depth)" arbitrary: depth model_cls prefix)
  case 0
  then show ?case by (simp add: flatten_cutoff)
next
  case (Suc k)
  have IH: "flatten_schema (drop_field f reg) t config p (depth + 1) =
            flatten_schema reg t config p (depth + 1)" for t p
    using Suc(2) by (intro Suc(1)) simp
  have "(if (case field of (field_name, field_info) \<Rightarrow> field_name \<noteq> f)
         then field_columns (drop_field f reg) config prefix depth field else []) =
        field_columns reg config prefix depth field" for field
    using assms
    by (cases field)
       (auto simp: field_columns_def selected_def list_columns_def scalar_columns_def IH)
  then have "(\<lambda>field. if (case field of (field_name, field_info) \<Rightarrow> field_name \<noteq> f)
         then field_columns (drop_field f reg) config prefix depth field else []) =
        field_columns reg config prefix depth"
    by (intro ext)
  then show ?case
    by (simp add: flatten_schema_fields get_model_fields_drop_field concat_map_filter_if)
qed

theorem excluded_field_no_columns_witness:
  "''address'' \<in> cfg_exclude both_config \<and> ''address'' \<in> cfg_include both_config \<and>
   flatten_schema (scenario_registry PStr PStr) (TModel ''Patient'') both_config [] 0 =
     [''name'']"
proof -
  have h: "''address'' \<in> cfg_exclude both_config"
    by (simp add: cfg_exclude_def cfg_schema_def both_config_def dict_get_def)
  have i: "''address'' \<in> cfg_include both_config"
    by (simp add: cfg_include_def cfg_schema_def both_config_def dict_get_def)
  have "flatten_schema (drop_field ''address'' (scenario_registry PStr PStr))
          (TModel ''Patient'') both_config [] 0 = [''name'']"
    by code_simp
  with excluded_field_no_columns[OF h, of "scenario_registry PStr PStr"
         "TModel ''Patient''" "[]" 0] h i
  show ?thesis by simp
qed

text \<open>
  C9: a negative \<open>max_depth\<close> gives what \<open>max_depth = 0\<close> gives, the empty list, and a
  negative \<open>max_array_items\<close> gives what \<open>max_array_items = 0\<close> gives; neither fails.
\<close>

theorem negative_settings_as_zero:
  "(m < 0 \<and> 0 \<le> depth \<longrightarrow>
      flatten_schema reg model_cls (set_max_depth m config) prefix depth =
      flatten_schema reg model_cls (set_max_depth 0 config) prefix depth \<and>
      flatten_schema reg model_cls (set_max_depth 0 config) prefix depth = []) \<and>
   (n < 0 \<longrightarrow>
      flatten_schema reg model_cls (set_max_array_items n config) prefix depth =
      flatten_schema reg model_cls (set_max_array_items 0 config) prefix depth)"
  by (simp add: flatten_cutoff flatten_negative_items)

theorem negative_settings_as_zero_witness:
  "(- 1 :: int) < 0 \<and> (0 :: int) \<le> 0 \<and> (- 2 :: int) < 0 \<and>
   flatten_schema (scenario_registry PStr PStr) (TModel ''Patient'')
     (set_max_depth (- 1) (scenario_config 2)) [] 0 = [] \<and>
   flatten_schema (scenario_registry PStr PStr) (TModel ''Patient'')
     (set_max_array_items (- 2) (scenario_config 2)) [] 0 = [''name'']"
proof -
  have "flatten_schema (scenario_registry PStr PStr) (TModel ''Patient'')
     (set_max_array_items 0 (scenario_config 2)) [] 0 = [''name'']"
    by code_simp
  with negative_settings_as_zero[of "- 1" 0 "scenario_registry PStr PStr" "TModel ''Patient''"
         "scenario_config 2" "[]" "- 2"]
  show ?thesis by simp
qed

end
